theory Spec2Isabelle
  imports Main
begin

unbundle bit_operations_syntax

section \<open>Python values used by \<open>h_utils.py\<close>\<close>

text \<open>
  Strings are \<open>char list\<close>. The pattern language of \<open>expand_tn\<close> is ASCII only
  (\<open>[0-9]\<close> in a \<open>str\<close> pattern matches the code points 48 to 57 and nothing else), and no
  byte of a multi-byte UTF-8 sequence is an ASCII character, so scanning bytes skips exactly
  what scanning code points skips.
\<close>

datatype error = ValueError | IndexError | AttributeError

definition is_digit :: "char \<Rightarrow> bool" where
  "is_digit c = (48 \<le> (of_char c :: nat) \<and> (of_char c :: nat) \<le> 57)"

definition digit_val :: "char \<Rightarrow> int" where
  "digit_val c = int (of_char c) - 48"

definition digit_char :: "nat \<Rightarrow> char" where
  "digit_char n = char_of (48 + n)"

subsection \<open>\<open>int(s)\<close> on a string\<close>

text \<open>
  \<open>int\<close> strips surrounding whitespace, takes an optional sign, and then wants decimal
  digits, where single underscores may stand between two digits. Anything else raises
  \<open>ValueError\<close>.
\<close>

definition is_space :: "char \<Rightarrow> bool" where
  "is_space c = ((of_char c :: nat) = 32 \<or> (9 \<le> (of_char c :: nat) \<and> (of_char c :: nat) \<le> 13))"

definition strip :: "string \<Rightarrow> string" where
  "strip s = rev (dropWhile is_space (rev (dropWhile is_space s)))"

fun int_digits :: "int \<Rightarrow> string \<Rightarrow> error + int" where
  "int_digits acc [] = Inr acc"
| "int_digits acc (c # cs) =
     (if is_digit c then int_digits (10 * acc + digit_val c) cs
      else if c = CHR ''_'' \<and> cs \<noteq> [] \<and> is_digit (hd cs) then int_digits acc cs
      else Inl ValueError)"

definition int_unsigned :: "string \<Rightarrow> error + int" where
  "int_unsigned s =
     (case s of
        [] \<Rightarrow> Inl ValueError
      | c # cs \<Rightarrow> if is_digit c then int_digits 0 s else Inl ValueError)"

definition py_int :: "string \<Rightarrow> error + int" where
  "py_int s =
     (case strip s of
        [] \<Rightarrow> Inl ValueError
      | c # cs \<Rightarrow>
          if c = CHR ''-'' then
            (case int_unsigned cs of Inl e \<Rightarrow> Inl e | Inr v \<Rightarrow> Inr (- v))
          else if c = CHR ''+'' then int_unsigned cs
          else int_unsigned (c # cs))"

subsection \<open>\<open>f"{xx}"\<close> on an integer\<close>

function nat_str :: "nat \<Rightarrow> string" where
  "nat_str n = (if n < 10 then [digit_char n] else nat_str (n div 10) @ [digit_char (n mod 10)])"
  by pat_completeness auto
termination
  by (relation "measure (\<lambda>n. n)") auto

declare nat_str.simps [simp del]

definition py_str :: "int \<Rightarrow> string" where
  "py_str i = (if i < 0 then CHR ''-'' # nat_str (nat (- i)) else nat_str (nat i))"

subsection \<open>\<open>list(range(start, stop))\<close>\<close>

definition py_range :: "int \<Rightarrow> int \<Rightarrow> int list" where
  "py_range start stop = [start..stop - 1]"

subsection \<open>\<open>itertools.product(*iterables)\<close>\<close>

text \<open>
  The library documents \<open>product\<close> by this loop, which the model follows:
  \<^verbatim>\<open>
    result = [[]]
    for pool in pools:
        result = [x+[y] for x in result for y in pool]
  \<close>
\<close>

definition product_step :: "'a list list \<Rightarrow> 'a list \<Rightarrow> 'a list list" where
  "product_step result pool = concat (map (\<lambda>x. map (\<lambda>y. x @ [y]) pool) result)"

definition itertools_product :: "'a list list \<Rightarrow> 'a list list" where
  "itertools_product pools = foldl product_step [[]] pools"

section \<open>\<open>ip_version\<close> and \<open>ip_in_range\<close>\<close>

text \<open>
  The values \<open>ip_in_range\<close> handles: a string, the address and network objects of the
  \<open>ipaddress\<close> module, and \<open>None\<close>. An address is its integer; a network is the integer of
  its network address and its prefix length.
\<close>

datatype pyobj =
    Str string
  | IPv4Address nat
  | IPv6Address nat
  | IPv4Network nat nat
  | IPv6Network nat nat
  | PyNone

text \<open>
  The constructors \<open>ipaddress.IPv4Network(str)\<close> and \<open>ipaddress.IPv6Network(str)\<close> belong to
  the standard library, not to this repository; they are parameters of the model. \<open>None\<close>
  stands for the exception a constructor raises on a string it rejects.
\<close>

record ipaddress =
  IPv4Network_of_str :: "string \<Rightarrow> (nat \<times> nat) option"
  IPv6Network_of_str :: "string \<Rightarrow> (nat \<times> nat) option"

text \<open>\<open>ip_version\<close>: the nested \<open>try\<close> blocks, and \<open>None\<close> when both constructors raise.\<close>

definition ip_version :: "ipaddress \<Rightarrow> string \<Rightarrow> pyobj" where
  "ip_version lib ip =
     (case IPv4Network_of_str lib ip of
        Some (a, p) \<Rightarrow> IPv4Network a p
      | None \<Rightarrow>
          (case IPv6Network_of_str lib ip of
             Some (a, p) \<Rightarrow> IPv6Network a p
           | None \<Rightarrow> PyNone))"

text \<open>The attribute \<open>.prefixlen\<close>; only network objects have it.\<close>

fun prefixlen :: "pyobj \<Rightarrow> error + nat" where
  "prefixlen (IPv4Network a p) = Inr p"
| "prefixlen (IPv6Network a p) = Inr p"
| "prefixlen _ = Inl AttributeError"

text \<open>\<open>ip[0]\<close> on a network: its first address, an address object of the same version.\<close>

fun first_address :: "pyobj \<Rightarrow> pyobj" where
  "first_address (IPv4Network a p) = IPv4Address a"
| "first_address (IPv6Network a p) = IPv6Address a"
| "first_address x = x"

text \<open>\<open>int(range.netmask)\<close> for a prefix length in an address width.\<close>

definition netmask :: "nat \<Rightarrow> nat \<Rightarrow> nat" where
  "netmask width p = 2 ^ width - 2 ^ (width - p)"

text \<open>
  \<open>ip_in_range\<close>. \<open>Inl\<close> is an exception, \<open>Inr None\<close> the return value \<open>None\<close>. The two
  \<open>isinstance\<close> tests exclude each other, so the model reads them as one case distinction.
\<close>

definition ip_in_range :: "ipaddress \<Rightarrow> pyobj \<Rightarrow> pyobj \<Rightarrow> error + bool option" where
  "ip_in_range lib ip rng =
     (case (case ip of
              Str s \<Rightarrow>
                (let n = ip_version lib s in
                 case prefixlen n of
                   Inl e \<Rightarrow> Inl e
                 | Inr p \<Rightarrow> Inr (if p = 32 then first_address n else n))
            | _ \<Rightarrow> Inr ip) of
        Inl e \<Rightarrow> Inl e
      | Inr ip' \<Rightarrow>
          (let range' = (case rng of Str s \<Rightarrow> ip_version lib s | _ \<Rightarrow> rng) in
           case (ip', range') of
             (IPv4Address i, IPv4Network a p) \<Rightarrow> Inr (Some ((i AND netmask 32 p) = a))
           | (IPv6Address i, IPv6Network a p) \<Rightarrow> Inr (Some ((i AND netmask 128 p) = a))
           | _ \<Rightarrow> Inr None))"

text \<open>
  What the two constructors of the library return on four strings (and a rejection of every
  other string): \<open>10.0.0.1\<close> is the network 10.0.0.1/32, \<open>::1\<close> is the network ::1/128.
\<close>

definition ipaddress_sample :: ipaddress where
  "ipaddress_sample =
     \<lparr> IPv4Network_of_str = (\<lambda>s. if s = ''10.0.0.1'' then Some (167772161, 32)
                                else if s = ''10.0.0.0/8'' then Some (167772160, 8)
                                else None),
       IPv6Network_of_str = (\<lambda>s. if s = ''::1'' then Some (1, 128)
                                else if s = ''::/0'' then Some (0, 0)
                                else None) \<rparr>"

section \<open>The regular expression of \<open>expand_tn\<close>\<close>

text \<open>
  \<open>FULL_NUMBER_RE\<close> uses literal characters, character ranges, concatenation, alternation
  and four capturing groups. The matcher is the backtracking one of \<open>re\<close>: it lists the ways
  a pattern matches a prefix of the input in the order \<open>re\<close> tries them, each with the rest of
  the input and the groups captured on the way; \<open>re\<close> takes the first.
\<close>

datatype regex =
    Lit char
  | Cls char char
  | Seq regex regex
  | Alt regex regex
  | Grp nat regex

type_synonym groups = "string option list"

fun rmatch :: "regex \<Rightarrow> string \<Rightarrow> groups \<Rightarrow> (string \<times> groups) list" where
  "rmatch (Lit c) s g =
     (case s of [] \<Rightarrow> [] | x # xs \<Rightarrow> if x = c then [(xs, g)] else [])"
| "rmatch (Cls lo hi) s g =
     (case s of
        [] \<Rightarrow> []
      | x # xs \<Rightarrow>
          if (of_char lo :: nat) \<le> of_char x \<and> (of_char x :: nat) \<le> of_char hi
          then [(xs, g)] else [])"
| "rmatch (Seq r1 r2) s g = concat (map (\<lambda>(s', g'). rmatch r2 s' g') (rmatch r1 s g))"
| "rmatch (Alt r1 r2) s g = rmatch r1 s g @ rmatch r2 s g"
| "rmatch (Grp n r) s g =
     map (\<lambda>(s', g'). (s', g'[n - 1 := Some (take (length s - length s') s)])) (rmatch r s g)"

text \<open>\<open>r"\[([0-9])-([0-9])\]|(X)|([0-9])"\<close>\<close>

definition FULL_NUMBER_RE :: regex where
  "FULL_NUMBER_RE =
     Alt (Seq (Lit CHR ''['')
           (Seq (Grp 1 (Cls CHR ''0'' CHR ''9''))
             (Seq (Lit CHR ''-'')
               (Seq (Grp 2 (Cls CHR ''0'' CHR ''9'')) (Lit CHR '']'')))))
         (Alt (Grp 3 (Lit CHR ''X'')) (Grp 4 (Cls CHR ''0'' CHR ''9'')))"

text \<open>
  One attempt of \<open>FULL_NUMBER_RE\<close> at the head of the input: the groups of the first way
  to match (what \<open>match.groups()\<close> returns) and the input after the match.
\<close>

definition match_here :: "string \<Rightarrow> (groups \<times> string) option" where
  "match_here s =
     (case rmatch FULL_NUMBER_RE s (replicate 4 None) of
        [] \<Rightarrow> None
      | (rest, g) # _ \<Rightarrow> Some (g, rest))"

lemma rmatch_shorter:
  "(rest, g') \<in> set (rmatch r s g) \<Longrightarrow> length rest < length s"
proof (induction r arbitrary: s g rest g')
  case (Lit c)
  then show ?case by (cases s) (auto split: if_splits)
next
  case (Cls lo hi)
  then show ?case by (cases s) (auto split: if_splits)
next
  case (Seq r1 r2)
  from Seq.prems obtain s1 g1 where
    a: "(s1, g1) \<in> set (rmatch r1 s g)" and b: "(rest, g') \<in> set (rmatch r2 s1 g1)"
    by auto
  from Seq.IH(1)[OF a] Seq.IH(2)[OF b] show ?case by simp
next
  case (Alt r1 r2)
  then show ?case by auto
next
  case (Grp n r)
  then show ?case by auto
qed

lemma match_here_shorter:
  "match_here s = Some (g, rest) \<Longrightarrow> length rest < length s"
proof -
  assume a: "match_here s = Some (g, rest)"
  then obtain more where "rmatch FULL_NUMBER_RE s (replicate 4 None) = (rest, g) # more"
    by (auto simp: match_here_def split: list.splits)
  then have "(rest, g) \<in> set (rmatch FULL_NUMBER_RE s (replicate 4 None))" by simp
  then show ?thesis by (rule rmatch_shorter)
qed

text \<open>
  \<open>re.finditer(FULL_NUMBER_RE, tn)\<close>: the matches from left to right. Where the pattern
  matches, the scan goes on after the match; where it does not, it moves one character on.
  (No match of \<open>FULL_NUMBER_RE\<close> is empty, so the rule of \<open>re\<close> for empty matches never
  applies.) The model keeps of each match its groups, the only part \<open>expand_tn\<close> reads.
\<close>

function finditer :: "string \<Rightarrow> groups list" where
  "finditer s =
     (if s = [] then []
      else (case match_here s of
              Some (g, rest) \<Rightarrow> g # finditer rest
            | None \<Rightarrow> finditer (tl s)))"
  by pat_completeness auto
termination
  by (relation "measure length") (auto dest: match_here_shorter)

declare finditer.simps [simp del]

section \<open>\<open>expand_tn\<close>\<close>

text \<open>\<open>[m for m in match_groups if m is not None]\<close>\<close>

definition non_none :: "groups \<Rightarrow> string list" where
  "non_none match_groups = concat (map (\<lambda>m. case m of None \<Rightarrow> [] | Some x \<Rightarrow> [x]) match_groups)"

text \<open>\<open>m[i]\<close> on a list raises \<open>IndexError\<close> out of range.\<close>

definition item :: "'a list \<Rightarrow> nat \<Rightarrow> error + 'a" where
  "item xs i = (if i < length xs then Inr (xs ! i) else Inl IndexError)"

text \<open>The body of the loop over the matches: the list appended to \<open>ranges\<close>.\<close>

definition match_range :: "groups \<Rightarrow> error + int list" where
  "match_range match_groups =
     (let m = non_none match_groups in
      if length m = 1 then
        (case item m 0 of
           Inl e \<Rightarrow> Inl e
         | Inr m0 \<Rightarrow>
             if m0 = ''X'' then Inr (py_range 0 10)
             else (case py_int m0 of
                     Inl e \<Rightarrow> Inl e
                   | Inr start \<Rightarrow> Inr (py_range start (start + 1))))
      else
        (case item m 0 of
           Inl e \<Rightarrow> Inl e
         | Inr m0 \<Rightarrow>
             (case py_int m0 of
                Inl e \<Rightarrow> Inl e
              | Inr start \<Rightarrow>
                  (case item m 1 of
                     Inl e \<Rightarrow> Inl e
                   | Inr m1 \<Rightarrow>
                       (case py_int m1 of
                          Inl e \<Rightarrow> Inl e
                        | Inr v \<Rightarrow> Inr (py_range start (v + 1)))))))"

fun build_ranges :: "groups list \<Rightarrow> int list list \<Rightarrow> error + int list list" where
  "build_ranges [] ranges = Inr ranges"
| "build_ranges (g # gs) ranges =
     (case match_range g of
        Inl e \<Rightarrow> Inl e
      | Inr r \<Rightarrow> build_ranges gs (ranges @ [r]))"

text \<open>The inner loop: \<open>single_expanded_number += f"{xx}"\<close> for each \<open>xx\<close> of the tuple.\<close>

definition join_digits :: "int list \<Rightarrow> string" where
  "join_digits x = foldl (\<lambda>single_expanded_number xx. single_expanded_number @ py_str xx) [] x"

text \<open>
  The generator, as the list of what it yields, in order; \<open>Inl\<close> is an exception raised
  while it runs.
\<close>

definition expand_tn :: "string \<Rightarrow> error + string list" where
  "expand_tn tn =
     (case build_ranges (finditer tn) [] of
        Inl e \<Rightarrow> Inl e
      | Inr ranges \<Rightarrow> Inr (map join_digits (itertools_product ranges)))"

section \<open>The pattern language as the specification words it\<close>

text \<open>
  The specification describes a pattern as a sequence of tokens: a bracketed range
  \<open>[a-b]\<close> of two digits, the wildcard \<open>X\<close>, or a literal digit, tried in this order at
  each position from the left; a character that starts none of them is skipped.
\<close>

datatype token = Bracket char char | Wildcard | Literal char

definition range_at :: "string \<Rightarrow> bool" where
  "range_at s =
     (case s of
        c0 # a # c2 # b # c4 # rest \<Rightarrow>
          c0 = CHR ''['' \<and> is_digit a \<and> c2 = CHR ''-'' \<and> is_digit b \<and> c4 = CHR '']''
      | _ \<Rightarrow> False)"

definition next_token :: "string \<Rightarrow> (token \<times> string) option" where
  "next_token s =
     (if range_at s then Some (Bracket (s ! 1) (s ! 3), drop 5 s)
      else (case s of
              [] \<Rightarrow> None
            | c # cs \<Rightarrow>
                if c = CHR ''X'' then Some (Wildcard, cs)
                else if is_digit c then Some (Literal c, cs)
                else None))"

lemma next_token_shorter:
  "next_token s = Some (t, rest) \<Longrightarrow> length rest < length s"
  by (auto simp: next_token_def range_at_def split: if_splits list.splits)

function tokenize :: "string \<Rightarrow> token list" where
  "tokenize s =
     (if s = [] then []
      else (case next_token s of
              Some (t, rest) \<Rightarrow> t # tokenize rest
            | None \<Rightarrow> tokenize (tl s)))"
  by pat_completeness auto
termination
  by (relation "measure length") (auto dest: next_token_shorter)

declare tokenize.simps [simp del]

text \<open>The digit-set of a token, in ascending order: \<open>{d}\<close>, \<open>{0,...,9}\<close>, \<open>{a,...,b}\<close>.\<close>

fun digit_set :: "token \<Rightarrow> int list" where
  "digit_set (Literal d) = [digit_val d]"
| "digit_set Wildcard = [0..9]"
| "digit_set (Bracket a b) = [digit_val a..digit_val b]"

text \<open>The character that stands for a digit value in an output string.\<close>

definition digit_of :: "int \<Rightarrow> char" where
  "digit_of d = digit_char (nat d)"

text \<open>
  The cardinality of a token's digit-set as the specification counts it: 1 for a literal,
  10 for \<open>X\<close>, \<open>b - a + 1\<close> for \<open>[a-b]\<close>.
\<close>

fun spec_cardinality :: "token \<Rightarrow> int" where
  "spec_cardinality (Literal d) = 1"
| "spec_cardinality Wildcard = 10"
| "spec_cardinality (Bracket a b) = digit_val b - digit_val a + 1"

text \<open>The same count, with an inverted range counted as empty.\<close>

fun cardinality :: "token \<Rightarrow> int" where
  "cardinality (Literal d) = 1"
| "cardinality Wildcard = 10"
| "cardinality (Bracket a b) = max 0 (digit_val b - digit_val a + 1)"

text \<open>
  The Cartesian product in the order of the specification: the combination at index \<open>k\<close>
  takes at position \<open>j\<close> the element of the \<open>j\<close>-th set whose index is the \<open>j\<close>-th digit of
  \<open>k\<close> in the mixed radix of the set sizes. The last position has stride 1 and so varies
  fastest; the first has the largest stride and varies slowest.
\<close>

definition stride :: "'a list list \<Rightarrow> nat \<Rightarrow> nat" where
  "stride sets j = prod_list (map length (drop (Suc j) sets))"

definition combination :: "'a list list \<Rightarrow> nat \<Rightarrow> 'a list" where
  "combination sets k =
     map (\<lambda>j. sets ! j ! ((k div stride sets j) mod length (sets ! j))) [0..<length sets]"

definition cartesian :: "'a list list \<Rightarrow> 'a list list" where
  "cartesian sets = map (combination sets) [0..<prod_list (map length sets)]"

text \<open>A token whose characters are digits where the grammar wants digits.\<close>

fun token_ok :: "token \<Rightarrow> bool" where
  "token_ok (Bracket a b) = (is_digit a \<and> is_digit b)"
| "token_ok Wildcard = True"
| "token_ok (Literal d) = is_digit d"

text \<open>The groups \<open>re\<close> reports for a token: groups 1 and 2 of a range, 3 of \<open>X\<close>, 4 of a digit.\<close>

fun token_groups :: "token \<Rightarrow> groups" where
  "token_groups (Bracket a b) = [Some [a], Some [b], None, None]"
| "token_groups Wildcard = [None, None, Some ''X'', None]"
| "token_groups (Literal d) = [None, None, None, Some [d]]"

section \<open>The scan of \<open>FULL_NUMBER_RE\<close> is the tokenizer\<close>

lemma replicate_4: "replicate 4 x = [x, x, x, x]"
  by (simp add: numeral_eq_Suc)

lemma match_here_Nil: "match_here [] = None"
  by (simp add: match_here_def FULL_NUMBER_RE_def)

lemma match_here_X: "match_here (CHR ''X'' # cs) = Some ([None, None, Some ''X'', None], cs)"
  by (simp add: match_here_def FULL_NUMBER_RE_def replicate_4)

lemma match_here_digit:
  "is_digit c \<Longrightarrow> match_here (c # cs) = Some ([None, None, None, Some [c]], cs)"
  by (auto simp: match_here_def FULL_NUMBER_RE_def replicate_4 is_digit_def)

lemma match_here_other:
  "\<not> is_digit c \<Longrightarrow> c \<noteq> CHR ''X'' \<Longrightarrow> c \<noteq> CHR ''['' \<Longrightarrow> match_here (c # cs) = None"
  by (auto simp: match_here_def FULL_NUMBER_RE_def is_digit_def)

lemma match_here_range:
  "is_digit a \<Longrightarrow> is_digit b \<Longrightarrow>
   match_here (CHR ''['' # a # CHR ''-'' # b # CHR '']'' # cs)
     = Some ([Some [a], Some [b], None, None], cs)"
  by (auto simp: match_here_def FULL_NUMBER_RE_def replicate_4 is_digit_def)

lemma match_here_bracket:
  "\<not> range_at (CHR ''['' # cs) \<Longrightarrow> match_here (CHR ''['' # cs) = None"
  by (simp add: match_here_def FULL_NUMBER_RE_def replicate_4 is_digit_def range_at_def
     split: list.splits)

lemma range_at_shape:
  "range_at s \<Longrightarrow> \<exists>a b cs. s = CHR ''['' # a # CHR ''-'' # b # CHR '']'' # cs \<and> is_digit a \<and> is_digit b"
  by (auto simp: range_at_def split: list.splits)

lemma match_here_next_token:
  "match_here s = map_option (\<lambda>(t, rest). (token_groups t, rest)) (next_token s)"
proof (cases "range_at s")
  case True
  then obtain a b cs where s: "s = CHR ''['' # a # CHR ''-'' # b # CHR '']'' # cs"
    and d: "is_digit a" "is_digit b"
    using range_at_shape by blast
  from True s d show ?thesis
    by (simp add: next_token_def match_here_range)
next
  case False
  show ?thesis
  proof (cases s)
    case Nil
    then show ?thesis using False by (simp add: next_token_def match_here_Nil)
  next
    case (Cons c cs)
    consider "c = CHR ''X''" | "is_digit c" | "c = CHR ''[''" 
      | "c \<noteq> CHR ''X''" "\<not> is_digit c" "c \<noteq> CHR ''[''" by blast
    then show ?thesis
    proof cases
      case 1
      then show ?thesis using False Cons by (simp add: next_token_def match_here_X)
    next
      case 2
      then have "c \<noteq> CHR ''X''" by (auto simp: is_digit_def)
      then show ?thesis using 2 False Cons by (simp add: next_token_def match_here_digit)
    next
      case 3
      then have "\<not> is_digit c" by (auto simp: is_digit_def)
      then show ?thesis using 3 False Cons by (simp add: next_token_def match_here_bracket)
    next
      case 4
      then show ?thesis using False Cons by (simp add: next_token_def match_here_other)
    qed
  qed
qed

lemma finditer_tokenize: "finditer s = map token_groups (tokenize s)"
proof (induction s rule: tokenize.induct)
  case (1 s)
  show ?case
  proof (cases "s = []")
    case True
    then show ?thesis by (simp add: finditer.simps tokenize.simps)
  next
    case False
    show ?thesis
    proof (cases "next_token s")
      case None
      then have "match_here s = None" by (simp add: match_here_next_token)
      with None False "1.IH" show ?thesis
        by (subst finditer.simps, subst tokenize.simps) simp
    next
      case (Some p)
      obtain t rest where p: "p = (t, rest)" by (cases p)
      with Some have "match_here s = Some (token_groups t, rest)"
        by (simp add: match_here_next_token)
      with Some p False "1.IH" show ?thesis
        by (subst finditer.simps, subst tokenize.simps) simp
    qed
  qed
qed

section \<open>From matches to digit ranges\<close>

lemma next_token_ok: "next_token s = Some (t, rest) \<Longrightarrow> token_ok t"
  by (auto simp: next_token_def range_at_def split: if_splits list.splits)

lemma tokenize_ok: "list_all token_ok (tokenize s)"
proof (induction s rule: tokenize.induct)
  case (1 s)
  show ?case
  proof (cases "s = []")
    case True
    then show ?thesis by (simp add: tokenize.simps)
  next
    case False
    show ?thesis
    proof (cases "next_token s")
      case None
      with False "1.IH" show ?thesis by (subst tokenize.simps) simp
    next
      case (Some p)
      obtain t rest where p: "p = (t, rest)" by (cases p)
      with Some have "token_ok t" by (auto dest: next_token_ok)
      with Some p False "1.IH" show ?thesis by (subst tokenize.simps) simp
    qed
  qed
qed

lemma digit_val_bounds: "is_digit c \<Longrightarrow> 0 \<le> digit_val c \<and> digit_val c \<le> 9"
  by (auto simp: is_digit_def digit_val_def)

lemma strip_digit: "is_digit c \<Longrightarrow> strip [c] = [c]"
  by (auto simp: strip_def is_digit_def is_space_def)

lemma py_int_digit: "is_digit c \<Longrightarrow> py_int [c] = Inr (digit_val c)"
proof -
  assume d: "is_digit c"
  then have "c \<noteq> CHR ''-''" "c \<noteq> CHR ''+''" by (auto simp: is_digit_def)
  with d show ?thesis by (simp add: py_int_def strip_digit int_unsigned_def)
qed

lemma X_not_digit: "\<not> is_digit CHR ''X''"
  by (simp add: is_digit_def)

lemma match_range_token: "token_ok t \<Longrightarrow> match_range (token_groups t) = Inr (digit_set t)"
proof (cases t)
  case (Bracket a b)
  assume "token_ok t"
  with Bracket show ?thesis
    by (simp add: match_range_def non_none_def item_def py_int_digit py_range_def)
next
  case Wildcard
  then show ?thesis
    by (simp add: match_range_def non_none_def item_def py_range_def)
next
  case (Literal d)
  assume "token_ok t"
  with Literal have d: "is_digit d" by simp
  then have "[d] \<noteq> ''X''" using X_not_digit by auto
  with Literal d show ?thesis
    by (simp add: match_range_def non_none_def item_def py_int_digit py_range_def)
qed

lemma build_ranges_tokens:
  "list_all token_ok ts \<Longrightarrow>
   build_ranges (map token_groups ts) acc = Inr (acc @ map digit_set ts)"
  by (induction ts arbitrary: acc) (simp_all add: match_range_token)

lemma build_ranges_finditer:
  "build_ranges (finditer tn) [] = Inr (map digit_set (tokenize tn))"
  using build_ranges_tokens [OF tokenize_ok, of tn "[]"] by (simp add: finditer_tokenize)

section \<open>The product of the ranges\<close>

lemma product_step_Nil: "product_step [] pool = []"
  by (simp add: product_step_def)

lemma foldl_product_step:
  "foldl product_step acc pools
     = concat (map (\<lambda>a. map (\<lambda>p. a @ p) (product_lists pools)) acc)"
proof (induction pools arbitrary: acc)
  case Nil
  show ?case by (induction acc) simp_all
next
  case (Cons pool pools)
  have "concat (map (\<lambda>a. map ((@) a) (product_lists pools)) (product_step acc pool))
      = concat (map (\<lambda>a. map ((@) a) (product_lists (pool # pools))) acc)"
  proof (induction acc)
    case Nil
    show ?case by (simp add: product_step_def)
  next
    case (Cons a acc)
    have "product_step (a # acc) pool = map (\<lambda>y. a @ [y]) pool @ product_step acc pool"
      by (simp add: product_step_def)
    moreover have "concat (map (\<lambda>a. map ((@) a) (product_lists pools)) (map (\<lambda>y. a @ [y]) pool))
        = map ((@) a) (product_lists (pool # pools))"
      by (induction pool) (simp_all add: comp_def)
    ultimately show ?case using Cons by simp
  qed
  with Cons.IH [of "product_step acc pool"] show ?case by simp
qed

lemma itertools_product_lists: "itertools_product pools = product_lists pools"
proof -
  have "(@) ([]::'a list) = (\<lambda>p. p)" by (rule ext) simp
  then show ?thesis by (simp add: itertools_product_def foldl_product_step)
qed

lemma length_product_lists_prod:
  "length (product_lists xss) = prod_list (map length xss)"
  by (induction xss) (simp_all add: length_concat comp_def sum_list_triv)


lemma nth_concat_uniform:
  "\<forall>x \<in> set xs. length (f x) = m \<Longrightarrow> k < length xs * m \<Longrightarrow>
   concat (map f xs) ! k = f (xs ! (k div m)) ! (k mod m)"
proof (induction xs arbitrary: k)
  case Nil
  then show ?case by simp
next
  case (Cons x xs)
  show ?case
  proof (cases "k < m")
    case True
    with Cons.prems show ?thesis by (simp add: nth_append)
  next
    case False
    then have km: "m \<le> k" by simp
    from Cons.prems False have m0: "0 < m" by (cases m) auto
    from Cons.prems km have lt: "k - m < length xs * m" by auto
    from Cons.prems have all: "\<forall>x \<in> set xs. length (f x) = m" by simp
    have d: "k div m = Suc ((k - m) div m)" using km m0
      by (simp add: le_div_geq)
    have mo: "k mod m = (k - m) mod m" using km by (simp add: le_mod_geq)
    from Cons.IH [OF all lt] Cons.prems False d mo show ?thesis
      by (simp add: nth_append)
  qed
qed

lemma nth_product_lists_Cons:
  assumes "k < length xs * length (product_lists xss)"
  shows "product_lists (xs # xss) ! k
       = xs ! (k div length (product_lists xss)) # product_lists xss ! (k mod length (product_lists xss))"
proof -
  let ?m = "length (product_lists xss)"
  have "concat (map (\<lambda>x. map (Cons x) (product_lists xss)) xs) ! k
      = map (Cons (xs ! (k div ?m))) (product_lists xss) ! (k mod ?m)"
    using assms by (intro nth_concat_uniform) auto
  moreover have "0 < ?m" using assms by (cases ?m) auto
  then have "k mod ?m < ?m" by simp
  ultimately show ?thesis by simp
qed

lemma mixed_radix_digit:
  fixes k :: nat
  shows "(k mod (P * L * S)) div S mod L = k div S mod L"
proof -
  have "(k mod (S * (L * P))) div S = (k div S) mod (L * P)"
  proof (cases "S = 0")
    case True
    then show ?thesis by simp
  next
    case False
    have "k mod (S * (L * P)) = S * (k div S mod (L * P)) + k mod S"
      by (rule mod_mult2_eq)
    then have "(k mod (S * (L * P))) div S = (S * (k div S mod (L * P)) + k mod S) div S"
      by simp
    also have "\<dots> = k div S mod (L * P)" using False by simp
    finally show ?thesis .
  qed
  moreover have "(k div S) mod (L * P) mod L = (k div S) mod L"
    by (rule mod_mod_cancel) simp
  ultimately show ?thesis by (simp add: mult.commute mult.left_commute)
qed

lemma prod_list_split:
  "j < length xss \<Longrightarrow>
   prod_list (map length xss)
     = prod_list (map length (take j xss)) * length (xss ! j) * stride xss j"
proof -
  assume j: "j < length xss"
  have "prod_list (map length (take j xss @ xss ! j # drop (Suc j) xss))
      = prod_list (map length (take j xss)) * length (xss ! j) * stride xss j"
    by (simp add: stride_def)
  with id_take_nth_drop [OF j] show ?thesis by simp
qed

lemma stride_simps:
  "stride (xs # xss) 0 = prod_list (map length xss)"
  "stride (xs # xss) (Suc j) = stride xss j"
  by (simp_all add: stride_def)

lemma product_lists_nth_length:
  "k < length (product_lists xss) \<Longrightarrow> length (product_lists xss ! k) = length xss"
  using in_set_product_lists_length nth_mem by blast

lemma product_lists_nth_nth:
  "k < prod_list (map length xss) \<Longrightarrow> j < length xss \<Longrightarrow>
   product_lists xss ! k ! j = xss ! j ! ((k div stride xss j) mod length (xss ! j))"
proof (induction xss arbitrary: k j)
  case Nil
  then show ?case by simp
next
  case (Cons xs xss)
  let ?M = "prod_list (map length xss)"
  have len: "length (product_lists xss) = ?M" by (rule length_product_lists_prod)
  from Cons.prems have k: "k < length xs * ?M" by simp
  then have M0: "0 < ?M" by (cases ?M) auto
  from k have q: "k div ?M < length xs"
    by (simp add: less_mult_imp_div_less)
  have nth: "product_lists (xs # xss) ! k = xs ! (k div ?M) # product_lists xss ! (k mod ?M)"
    using nth_product_lists_Cons [of k xs xss] k len by simp
  show ?case
  proof (cases j)
    case 0
    with nth q show ?thesis by (simp add: stride_simps)
  next
    case (Suc j')
    with Cons.prems have j': "j' < length xss" by simp
    from M0 have lt: "k mod ?M < ?M" by simp
    have "product_lists xss ! (k mod ?M) ! j'
        = xss ! j' ! (((k mod ?M) div stride xss j') mod length (xss ! j'))"
      by (rule Cons.IH [OF lt j'])
    also have "((k mod ?M) div stride xss j') mod length (xss ! j')
        = (k div stride xss j') mod length (xss ! j')"
      by (simp only: prod_list_split [OF j'] mixed_radix_digit)
    finally show ?thesis using nth Suc by (simp add: stride_simps)
  qed
qed

lemma product_lists_cartesian: "product_lists xss = cartesian xss"
proof (rule nth_equalityI)
  show "length (product_lists xss) = length (cartesian xss)"
    by (simp add: cartesian_def length_product_lists_prod)
next
  fix k assume "k < length (product_lists xss)"
  then have k: "k < prod_list (map length xss)" by (simp add: length_product_lists_prod)
  have "product_lists xss ! k = combination xss k"
  proof (rule nth_equalityI)
    show "length (product_lists xss ! k) = length (combination xss k)"
      using k by (simp add: combination_def product_lists_nth_length length_product_lists_prod)
  next
    fix j assume "j < length (product_lists xss ! k)"
    then have "j < length xss"
      using k by (simp add: product_lists_nth_length length_product_lists_prod)
    then show "product_lists xss ! k ! j = combination xss k ! j"
      using k by (simp add: combination_def product_lists_nth_nth)
  qed
  then show "product_lists xss ! k = cartesian xss ! k"
    using k by (simp add: cartesian_def)
qed

lemma itertools_product_cartesian: "itertools_product pools = cartesian pools"
  by (simp add: itertools_product_lists product_lists_cartesian)

section \<open>What \<open>expand_tn\<close> yields\<close>

lemma nat_str_digit: "n < 10 \<Longrightarrow> nat_str n = [digit_char n]"
  by (subst nat_str.simps) simp

lemma py_str_digit: "0 \<le> d \<Longrightarrow> d \<le> 9 \<Longrightarrow> py_str d = [digit_of d]"
  by (simp add: py_str_def digit_of_def nat_str_digit)

lemma foldl_join_digits:
  "list_all (\<lambda>d. 0 \<le> d \<and> d \<le> 9) x \<Longrightarrow>
   foldl (\<lambda>s xx. s @ py_str xx) acc x = acc @ map digit_of x"
  by (induction x arbitrary: acc) (simp_all add: py_str_digit)

lemma join_digits_map:
  "list_all (\<lambda>d. 0 \<le> d \<and> d \<le> 9) x \<Longrightarrow> join_digits x = map digit_of x"
  by (simp add: join_digits_def foldl_join_digits)

lemma digit_set_bounds:
  "token_ok t \<Longrightarrow> d \<in> set (digit_set t) \<Longrightarrow> 0 \<le> d \<and> d \<le> 9"
  by (cases t) (auto dest: digit_val_bounds)

lemma product_lists_member:
  "x \<in> set (product_lists xss) \<Longrightarrow> list_all2 (\<lambda>d s. d \<in> set s) x xss"
proof (induction xss arbitrary: x)
  case Nil
  then show ?case by simp
next
  case (Cons xs xss)
  then show ?case by auto
qed

lemma tuples_are_digits:
  assumes "x \<in> set (product_lists (map digit_set (tokenize tn)))"
  shows "list_all (\<lambda>d. 0 \<le> d \<and> d \<le> 9) x"
proof -
  from assms have a: "list_all2 (\<lambda>d s. d \<in> set s) x (map digit_set (tokenize tn))"
    by (rule product_lists_member)
  have "\<forall>d \<in> set x. 0 \<le> d \<and> d \<le> 9"
  proof
    fix d assume "d \<in> set x"
    then obtain j where j: "j < length x" "x ! j = d" by (auto simp: in_set_conv_nth)
    from a j have jl: "j < length (tokenize tn)" by (auto dest: list_all2_lengthD)
    from a j jl have "d \<in> set (digit_set (tokenize tn ! j))"
      by (auto dest: list_all2_nthD)
    moreover from tokenize_ok [of tn] jl have "token_ok (tokenize tn ! j)"
      by (simp add: list_all_length)
    ultimately show "0 \<le> d \<and> d \<le> 9" by (rule digit_set_bounds [rotated])
  qed
  then show ?thesis by (simp add: list_all_iff)
qed

lemma expand_tn_product_lists:
  "expand_tn tn = Inr (map (map digit_of) (product_lists (map digit_set (tokenize tn))))"
  by (simp add: expand_tn_def build_ranges_finditer itertools_product_lists
      tuples_are_digits join_digits_map)

lemma expand_tn_cartesian:
  "expand_tn tn = Inr (map (map digit_of) (cartesian (map digit_set (tokenize tn))))"
  by (simp add: expand_tn_product_lists product_lists_cartesian)

section \<open>The examples of the documentation\<close>

lemma tokenize_example_wildcards: "tokenize ''131655510XX'' = [Literal CHR ''1'', Literal CHR ''3'', Literal CHR ''1'',
   Literal CHR ''6'', Literal CHR ''5'', Literal CHR ''5'', Literal CHR ''5'', Literal CHR ''1'',
   Literal CHR ''0'', Wildcard, Wildcard]"
  by code_simp

lemma nth_digits: "k < 10 \<Longrightarrow> [0..9] ! k = int k"
  by (simp add: nth_upto)

lemma digit_of_int: "digit_of (int k) = digit_char k"
  by (simp add: digit_of_def)

lemma digit_of_literals:
  "digit_of 0 = CHR ''0''" "digit_of 1 = CHR ''1''" "digit_of 2 = CHR ''2''"
  "digit_of 3 = CHR ''3''" "digit_of 4 = CHR ''4''" "digit_of 5 = CHR ''5''"
  "digit_of 6 = CHR ''6''" "digit_of 7 = CHR ''7''" "digit_of 8 = CHR ''8''"
  "digit_of 9 = CHR ''9''"
  by code_simp+

lemma digit_sets_example_wildcards: "map digit_set (tokenize ''131655510XX'')
   = [[1], [3], [1], [6], [5], [5], [5], [1], [0], [0..9], [0..9]]"
  by (simp add: tokenize_example_wildcards digit_val_def)

lemma combination_example_wildcards:
  assumes "n < 100"
  shows "map digit_of (combination [[1], [3], [1], [6], [5], [5], [5], [1], [0], [0..9], [0..9]] n)
     = ''131655510'' @ [digit_char (n div 10), digit_char (n mod 10)]"
proof -
  from assms have d: "n div 10 < 10" by simp
  have m: "n mod 10 < 10" by simp
  have u: "[0..<11] = [0, 1, 2, 3, 4, 5, 6, 7, 8, 9, 10]" by (simp add: upt_rec)
  show ?thesis
    using d m
    by (simp add: combination_def u stride_def nth_digits digit_of_int digit_of_literals)
qed

lemma expand_tn_example_wildcards: "expand_tn ''131655510XX'' =
  Inr (map (\<lambda>n. ''131655510'' @ [digit_char (n div 10), digit_char (n mod 10)]) [0..<100])"
proof -
  have "cartesian [[1], [3], [1], [6], [5], [5], [5], [1], [0], [0..9], [0..(9::int)]]
      = map (combination [[1], [3], [1], [6], [5], [5], [5], [1], [0], [0..9], [0..9]]) [0..<100]"
    by (simp add: cartesian_def)
  then show ?thesis
    by (simp add: expand_tn_cartesian digit_sets_example_wildcards combination_example_wildcards del: upt_rec_numeral)
qed

lemma upto_0_9: "[0..9] = [0, 1, 2, 3, 4, 5, 6, 7, 8, 9::int]"
  by code_simp

lemma tokenize_example_range:
  "tokenize ''1316555101[0-9]'' = [Literal CHR ''1'', Literal CHR ''3'', Literal CHR ''1'',
     Literal CHR ''6'', Literal CHR ''5'', Literal CHR ''5'', Literal CHR ''5'', Literal CHR ''1'',
     Literal CHR ''0'', Literal CHR ''1'', Bracket CHR ''0'' CHR ''9'']"
  by code_simp

lemma expand_tn_example_range:
  "expand_tn ''1316555101[0-9]'' =
     Inr [''13165551010'', ''13165551011'', ''13165551012'', ''13165551013'', ''13165551014'',
          ''13165551015'', ''13165551016'', ''13165551017'', ''13165551018'', ''13165551019'']"
  by (simp add: expand_tn_product_lists tokenize_example_range digit_val_def upto_0_9
      digit_of_literals)

lemma digit_char_literals: "digit_char 0 = CHR ''0''" "digit_char 9 = CHR ''9''"
  by code_simp+

text \<open>
  Claim C1. The pattern \<open>1316555101[0-9]\<close> yields exactly the ten strings
  \<open>13165551010\<close> to \<open>13165551019\<close> in ascending order, and the pattern \<open>131655510XX\<close>
  yields exactly the 100 strings \<open>13165551000\<close> to \<open>13165551099\<close> in ascending order: the
  string at index \<open>n\<close> ends in the two decimal digits of \<open>n\<close>, the first is
  \<open>13165551000\<close> and the last \<open>13165551099\<close>.
\<close>

theorem expand_tn_examples:
  "expand_tn ''1316555101[0-9]'' =
     Inr [''13165551010'', ''13165551011'', ''13165551012'', ''13165551013'', ''13165551014'',
          ''13165551015'', ''13165551016'', ''13165551017'', ''13165551018'', ''13165551019'']
   \<and> (\<exists>out. expand_tn ''131655510XX'' = Inr out
         \<and> out = map (\<lambda>n. ''131655510'' @ [digit_char (n div 10), digit_char (n mod 10)]) [0..<100]
         \<and> length out = 100 \<and> out ! 0 = ''13165551000'' \<and> out ! 99 = ''13165551099'')"
proof -
  let ?out = "map (\<lambda>n. ''131655510'' @ [digit_char (n div 10), digit_char (n mod 10)]) [0..<100]"
  have "length ?out = 100" by simp
  moreover have "?out ! 0 = ''13165551000''"
    by (simp add: digit_char_literals del: upt_rec_numeral)
  moreover have "?out ! 99 = ''13165551099''"
    by (simp add: digit_char_literals del: upt_rec_numeral)
  ultimately show ?thesis
    using expand_tn_example_range expand_tn_example_wildcards by blast
qed

section \<open>Tokenization\<close>

text \<open>
  Claim C4. The scan of the pattern by \<open>re.finditer\<close> recognizes, from left to right and in
  this priority, a bracketed range of two digits, the wildcard \<open>X\<close> and a literal digit, and
  skips every other character without an error: its matches are the groups of the tokens of
  \<open>tokenize\<close>, one match per token. The range lists the loop builds from the matches are
  the digit-sets of these tokens: \<open>[d]\<close> for a literal, \<open>0..9\<close> for \<open>X\<close>, \<open>a..b\<close> for
  \<open>[a-b]\<close>.
\<close>

theorem expand_tn_tokenization:
  "finditer tn = map token_groups (tokenize tn)
   \<and> build_ranges (finditer tn) [] = Inr (map digit_set (tokenize tn))"
  by (rule conjI [OF finditer_tokenize build_ranges_finditer])

text \<open>The theorem of claim C4 at a pattern with stray characters.\<close>

theorem expand_tn_tokenization_witness:
  "finditer ''1a[2-3]-X'' =
     [[None, None, None, Some ''1''], [Some ''2'', Some ''3'', None, None],
      [None, None, Some ''X'', None]]
   \<and> build_ranges (finditer ''1a[2-3]-X'') [] = Inr [[1], [2, 3], [0, 1, 2, 3, 4, 5, 6, 7, 8, 9]]"
proof -
  have t: "tokenize ''1a[2-3]-X'' = [Literal CHR ''1'', Bracket CHR ''2'' CHR ''3'', Wildcard]"
    by code_simp
  have u: "[2..3] = [2, 3::int]" by code_simp
  have a: "map token_groups (tokenize ''1a[2-3]-X'') =
     [[None, None, None, Some ''1''], [Some ''2'', Some ''3'', None, None],
      [None, None, Some ''X'', None]]"
    by (simp add: t)
  have b: "map digit_set (tokenize ''1a[2-3]-X'') = [[1], [2, 3], [0, 1, 2, 3, 4, 5, 6, 7, 8, 9]]"
    by (simp add: t digit_val_def upto_0_9 u)
  show ?thesis
    using expand_tn_tokenization [of "''1a[2-3]-X''"] unfolding a b .
qed

section \<open>Number of yielded strings\<close>

lemma length_digit_set: "int (length (digit_set t)) = cardinality t"
  by (cases t) auto

lemma int_prod_list_length:
  "int (prod_list (map length (map digit_set ts))) = prod_list (map cardinality ts)"
  by (induction ts) (simp_all add: length_digit_set)

text \<open>
  Claim C2, amended. For every pattern the number of strings \<open>expand_tn\<close> yields is the
  product, over the recognized tokens, of the token's digit-set cardinality: 1 for a literal
  digit, 10 for \<open>X\<close>, and \<open>max 0 (b - a + 1)\<close> for a bracketed range \<open>[a-b]\<close>; the sequence is a
  finite list.
\<close>

theorem expand_tn_count:
  "\<exists>out. expand_tn tn = Inr out
     \<and> int (length out) = prod_list (map cardinality (tokenize tn))"
proof -
  have "int (length (cartesian (map digit_set (tokenize tn))))
      = prod_list (map cardinality (tokenize tn))"
    unfolding cartesian_def using int_prod_list_length [of "tokenize tn"] by simp
  then show ?thesis by (simp add: expand_tn_cartesian)
qed

text \<open>
  Claim C2 as stated counts \<open>b - a + 1\<close> for every range. At the pattern \<open>[5-2]\<close> that
  product is \<open>-2\<close>, and \<open>expand_tn\<close> yields no string.
\<close>

theorem expand_tn_count_counterexample:
  "expand_tn ''[5-2]'' = Inr []
   \<and> prod_list (map spec_cardinality (tokenize ''[5-2]'')) = - 2
   \<and> \<not> (\<exists>out. expand_tn ''[5-2]'' = Inr out
          \<and> int (length out) = prod_list (map spec_cardinality (tokenize ''[5-2]'')))"
proof -
  have t: "tokenize ''[5-2]'' = [Bracket CHR ''5'' CHR ''2'']" by code_simp
  have e: "expand_tn ''[5-2]'' = Inr []"
    by (simp add: expand_tn_product_lists t digit_val_def)
  have p: "prod_list (map spec_cardinality (tokenize ''[5-2]'')) = - 2"
    by (simp add: t digit_val_def)
  from e p show ?thesis by simp
qed

section \<open>Order of the enumeration\<close>

text \<open>
  Claim C3. For every pattern \<open>expand_tn\<close> enumerates the Cartesian product of the tokens'
  digit-sets, taken in the order of the tokens, with the last position varying fastest and
  the first slowest: the string at index \<open>k\<close> has at position \<open>j\<close> the digit of the \<open>j\<close>-th
  set at index \<open>(k div stride j) mod size j\<close>, where the stride of a position is the product of
  the sizes of the sets after it.
\<close>

theorem expand_tn_product_order:
  "expand_tn tn = Inr (map (map digit_of) (cartesian (map digit_set (tokenize tn))))"
  by (rule expand_tn_cartesian)

text \<open>The theorem of claim C3 at a pattern with two ranges.\<close>

theorem expand_tn_product_order_witness:
  "expand_tn ''[1-2][3-5]'' = Inr [''13'', ''14'', ''15'', ''23'', ''24'', ''25'']"
proof -
  have t: "tokenize ''[1-2][3-5]'' = [Bracket CHR ''1'' CHR ''2'', Bracket CHR ''3'' CHR ''5'']"
    by code_simp
  have u: "[1..2] = [1, 2::int]" "[3..5] = [3, 4, 5::int]" by code_simp+
  have v: "[0..<6] = [0, 1, 2, 3, 4, 5]" "[0..<2] = [0, 1]" by (simp_all add: upt_rec)
  show ?thesis
    using expand_tn_product_order [of "''[1-2][3-5]''"]
    by (simp add: t u v digit_val_def cartesian_def combination_def stride_def digit_of_literals)
qed

section \<open>Shape of the yielded strings\<close>

lemma digit_of_roundtrip:
  "0 \<le> d \<Longrightarrow> d \<le> 9 \<Longrightarrow> is_digit (digit_of d) \<and> digit_val (digit_of d) = d"
  by (auto simp: is_digit_def digit_val_def digit_of_def digit_char_def)

text \<open>
  Claim C5. Every string \<open>expand_tn\<close> yields has as many characters as the pattern has
  recognized tokens (matches of \<open>FULL_NUMBER_RE\<close>), and its character at position \<open>j\<close> is a
  decimal digit whose value belongs to the digit-set of the \<open>j\<close>-th token.
\<close>

theorem expand_tn_lengths:
  assumes "expand_tn tn = Inr out" and "s \<in> set out"
  shows "length s = length (finditer tn)
       \<and> (\<forall>j<length s. is_digit (s ! j)
             \<and> digit_val (s ! j) \<in> set (digit_set (tokenize tn ! j)))"
proof -
  let ?sets = "map digit_set (tokenize tn)"
  from assms obtain x where x: "x \<in> set (product_lists ?sets)" and s: "s = map digit_of x"
    by (auto simp: expand_tn_product_lists)
  from x have a: "list_all2 (\<lambda>d S. d \<in> set S) x ?sets" by (rule product_lists_member)
  then have len: "length x = length (tokenize tn)" by (auto dest: list_all2_lengthD)
  from x have dig: "list_all (\<lambda>d. 0 \<le> d \<and> d \<le> 9) x" by (rule tuples_are_digits)
  have "length s = length (finditer tn)"
    using s len by (simp add: finditer_tokenize)
  moreover have "\<forall>j<length s. is_digit (s ! j)
             \<and> digit_val (s ! j) \<in> set (digit_set (tokenize tn ! j))"
  proof (intro allI impI)
    fix j assume "j < length s"
    with s have j: "j < length x" by simp
    with dig have b: "0 \<le> x ! j" "x ! j \<le> 9" by (simp_all add: list_all_length)
    from a j len have "x ! j \<in> set (digit_set (tokenize tn ! j))"
      by (auto dest: list_all2_nthD)
    with digit_of_roundtrip [OF b] s j
    show "is_digit (s ! j) \<and> digit_val (s ! j) \<in> set (digit_set (tokenize tn ! j))"
      by simp
  qed
  ultimately show ?thesis by simp
qed

text \<open>The theorem of claim C5 at the pattern \<open>1-[2-3]\<close> and its second string.\<close>

theorem expand_tn_lengths_witness:
  "expand_tn ''1-[2-3]'' = Inr [''12'', ''13'']
   \<and> ''13'' \<in> set [''12'', ''13'']
   \<and> length ''13'' = length (finditer ''1-[2-3]'')
   \<and> list_all (\<lambda>j. is_digit (''13'' ! j)
         \<and> digit_val (''13'' ! j) \<in> set (digit_set (tokenize ''1-[2-3]'' ! j))) [0..<length ''13'']"
proof -
  have t: "tokenize ''1-[2-3]'' = [Literal CHR ''1'', Bracket CHR ''2'' CHR ''3'']" by code_simp
  have u: "[2..3] = [2, 3::int]" by code_simp
  have e: "expand_tn ''1-[2-3]'' = Inr [''12'', ''13'']"
    by (simp add: expand_tn_product_lists t digit_val_def u digit_of_literals)
  have m: "''13'' \<in> set [''12'', ''13'']" by simp
  from expand_tn_lengths [OF e m] e show ?thesis
    by (simp add: list_all_iff)
qed

section \<open>No exception\<close>

lemma non_none_token_groups:
  "token_ok t \<Longrightarrow> \<forall>m \<in> set (non_none (token_groups t)). m = ''X'' \<or> (\<exists>d. m = [d] \<and> is_digit d)"
  by (cases t) (auto simp: non_none_def)

text \<open>
  Claim C9. For every input string \<open>expand_tn\<close> raises no exception and yields a finite list:
  every captured group of every match is \<open>X\<close> or a single decimal digit on which \<open>int\<close>
  succeeds, and the loop body builds a range for every match.
\<close>

theorem expand_tn_no_exception:
  "(\<exists>out. expand_tn tn = Inr out)
   \<and> (\<forall>g \<in> set (finditer tn). \<forall>m \<in> set (non_none g).
         m = ''X'' \<or> (\<exists>d. m = [d] \<and> is_digit d \<and> py_int m = Inr (digit_val d)))
   \<and> (\<forall>g \<in> set (finditer tn). \<exists>r. match_range g = Inr r)"
proof (intro conjI ballI)
  show "\<exists>out. expand_tn tn = Inr out"
    by (simp add: expand_tn_product_lists)
next
  fix g m assume g: "g \<in> set (finditer tn)" and m: "m \<in> set (non_none g)"
  from g obtain t where t: "t \<in> set (tokenize tn)" "g = token_groups t"
    by (auto simp: finditer_tokenize)
  from t tokenize_ok [of tn] have "token_ok t" by (simp add: list_all_iff)
  with m t non_none_token_groups have "m = ''X'' \<or> (\<exists>d. m = [d] \<and> is_digit d)" by blast
  then show "m = ''X'' \<or> (\<exists>d. m = [d] \<and> is_digit d \<and> py_int m = Inr (digit_val d))"
    by (auto simp: py_int_digit)
next
  fix g assume g: "g \<in> set (finditer tn)"
  then obtain t where t: "t \<in> set (tokenize tn)" "g = token_groups t"
    by (auto simp: finditer_tokenize)
  from t tokenize_ok [of tn] have "token_ok t" by (simp add: list_all_iff)
  with t show "\<exists>r. match_range g = Inr r" by (simp add: match_range_token)
qed

text \<open>The theorem of claim C9 at a pattern with stray characters.\<close>

theorem expand_tn_no_exception_witness:
  "(\<exists>out. expand_tn ''(316) 55X-[2-4]?'' = Inr out)
   \<and> finditer ''(316) 55X-[2-4]?'' \<noteq> []
   \<and> list_all (\<lambda>g. list_all (\<lambda>m. m = ''X'' \<or> (\<exists>d. m = [d] \<and> is_digit d \<and> py_int m = Inr (digit_val d)))
        (non_none g)) (finditer ''(316) 55X-[2-4]?'')
   \<and> list_all (\<lambda>g. \<exists>r. match_range g = Inr r) (finditer ''(316) 55X-[2-4]?'')"
proof -
  have "finditer ''(316) 55X-[2-4]?'' \<noteq> []" by code_simp
  with expand_tn_no_exception [of "''(316) 55X-[2-4]?''"] show ?thesis
    by (simp add: list_all_iff)
qed

text \<open>
  Claim C6. A pattern in which \<open>FULL_NUMBER_RE\<close> finds no token, the empty string included,
  makes \<open>expand_tn\<close> yield exactly one string, the empty one, without an error.
\<close>

theorem expand_tn_no_tokens:
  "finditer tn = [] \<Longrightarrow> expand_tn tn = Inr [[]]"
  by (simp add: expand_tn_def itertools_product_def join_digits_def)

text \<open>The theorem of claim C6 at the empty pattern and at a pattern of stray characters.\<close>

theorem expand_tn_no_tokens_witness:
  "finditer '''' = [] \<and> expand_tn '''' = Inr ['''']
   \<and> finditer ''(a-b) +x'' = [] \<and> expand_tn ''(a-b) +x'' = Inr ['''']"
proof -
  have a: "finditer '''' = []" by code_simp
  have b: "finditer ''(a-b) +x'' = []" by code_simp
  from a b expand_tn_no_tokens [OF a] expand_tn_no_tokens [OF b] show ?thesis by simp
qed

section \<open>Inverted ranges\<close>

lemma range_at_append_bracket:
  "pre \<noteq> [] \<Longrightarrow> range_at (pre @ CHR ''['' # rest) = range_at pre"
  by (auto simp: range_at_def is_digit_def split: list.splits)

lemma next_token_append_bracket:
  assumes "pre \<noteq> []"
  shows "next_token (pre @ CHR ''['' # rest)
       = map_option (\<lambda>(t, r). (t, r @ CHR ''['' # rest)) (next_token pre)"
proof (cases "range_at pre")
  case True
  with assms have ra: "range_at (pre @ CHR ''['' # rest)"
    by (simp add: range_at_append_bracket)
  from True obtain a b cs where "pre = CHR ''['' # a # CHR ''-'' # b # CHR '']'' # cs"
    using range_at_shape by blast
  with True ra show ?thesis
    by (simp add: next_token_def)
next
  case False
  with assms have ra: "\<not> range_at (pre @ CHR ''['' # rest)"
    by (simp add: range_at_append_bracket)
  from assms obtain c cs where "pre = c # cs" by (cases pre) auto
  with False ra show ?thesis
    by (simp add: next_token_def)
qed

lemma tokenize_bracket_here:
  "is_digit a \<Longrightarrow> is_digit b \<Longrightarrow>
   tokenize (CHR ''['' # a # CHR ''-'' # b # CHR '']'' # post) = Bracket a b # tokenize post"
  by (subst tokenize.simps) (simp add: next_token_def range_at_def)

lemma tokenize_append_bracket:
  assumes "is_digit a" "is_digit b"
  shows "tokenize (pre @ CHR ''['' # a # CHR ''-'' # b # CHR '']'' # post)
       = tokenize pre @ Bracket a b # tokenize post"
proof (induction pre rule: tokenize.induct)
  case (1 s)
  let ?R = "CHR ''['' # a # CHR ''-'' # b # CHR '']'' # post"
  show ?case
  proof (cases "s = []")
    case True
    with assms show ?thesis by (simp add: tokenize_bracket_here tokenize.simps [of "[]"])
  next
    case False
    note nt = next_token_append_bracket [OF False, of "a # CHR ''-'' # b # CHR '']'' # post"]
    show ?thesis
    proof (cases "next_token s")
      case None
      with False nt have "tokenize (s @ ?R) = tokenize (tl s @ ?R)"
        by (subst tokenize.simps) simp
      moreover from None False have "tokenize s = tokenize (tl s)"
        by (subst tokenize.simps) simp
      ultimately show ?thesis using "1.IH" None False by simp
    next
      case (Some p)
      obtain t r where p: "p = (t, r)" by (cases p)
      with Some False nt have "tokenize (s @ ?R) = t # tokenize (r @ ?R)"
        by (subst tokenize.simps) simp
      moreover from Some p False have "tokenize s = t # tokenize r"
        by (subst tokenize.simps) simp
      ultimately show ?thesis using "1.IH" Some p False by simp
    qed
  qed
qed

lemma cartesian_empty_set: "[] \<in> set sets \<Longrightarrow> cartesian sets = []"
proof -
  assume "[] \<in> set sets"
  then have "0 \<in> set (map length sets)" by force
  then have "prod_list (map length sets) = 0" by (simp only: prod_list_zero_iff)
  then show ?thesis by (simp add: cartesian_def)
qed

text \<open>
  Claim C10. A pattern that contains, anywhere, a bracketed range \<open>[a-b]\<close> of two digits with
  \<open>a > b\<close> makes \<open>expand_tn\<close> yield no string at all, without an error: the range is
  recognized as a token wherever it stands, and its digit-set is empty.
\<close>

theorem expand_tn_inverted_range:
  assumes "is_digit a" and "is_digit b" and "digit_val b < digit_val a"
  shows "expand_tn (pre @ [CHR ''['', a, CHR ''-'', b, CHR '']''] @ post) = Inr []"
proof -
  have "tokenize (pre @ [CHR ''['', a, CHR ''-'', b, CHR '']''] @ post)
      = tokenize pre @ Bracket a b # tokenize post"
    using tokenize_append_bracket [OF assms(1,2)] by simp
  moreover from assms(3) have "digit_set (Bracket a b) = []" by simp
  ultimately have "[] \<in> set (map digit_set (tokenize (pre @ [CHR ''['', a, CHR ''-'', b, CHR '']''] @ post)))"
    by (metis in_set_conv_decomp list.simps(9) map_append)
  then show ?thesis by (simp add: expand_tn_cartesian cartesian_empty_set)
qed

text \<open>The theorem of claim C10 at the pattern \<open>1X[5-2]7\<close>.\<close>

theorem expand_tn_inverted_range_witness:
  "is_digit CHR ''5'' \<and> is_digit CHR ''2'' \<and> digit_val CHR ''2'' < digit_val CHR ''5''
   \<and> expand_tn ''1X[5-2]7'' = Inr []"
proof -
  have a: "is_digit CHR ''5''" and b: "is_digit CHR ''2''"
    and c: "digit_val CHR ''2'' < digit_val CHR ''5''"
    by (simp_all add: is_digit_def digit_val_def)
  from expand_tn_inverted_range [OF a b c, of "''1X''" "''7''"] a b c show ?thesis by simp
qed

section \<open>\<open>ip_in_range\<close> on strings\<close>

text \<open>
  Claim C8 says that \<open>ip_in_range\<close> returns \<open>None\<close> only for an IPv4 operand paired with an
  IPv6 operand, and compares IPv6 strings as it compares IPv4 strings. The code turns the
  network parsed from a string into an address only when its prefix length is 32: an IPv6
  address given as a string is a network of prefix length 128, stays a network, and the
  result is \<open>None\<close> whatever the range is.
\<close>

theorem ip_in_range_ipv6_string_none:
  assumes "IPv4Network_of_str lib s = None"
    and "IPv6Network_of_str lib s = Some (a, p)"
    and "p \<noteq> 32"
  shows "ip_in_range lib (Str s) rng = Inr None"
  using assms
  by (auto simp: ip_in_range_def ip_version_def Let_def split: pyobj.splits option.splits)

text \<open>
  The theorem of claim C8 at \<open>ip = "::1"\<close>, \<open>range = "::/0"\<close>, beside the same address given as
  an object and an IPv4 address given as a string, which are both compared.
\<close>

theorem ip_in_range_ipv6_string_none_witness:
  "ip_in_range ipaddress_sample (Str ''::1'') (Str ''::/0'') = Inr None
   \<and> ip_in_range ipaddress_sample (IPv6Address 1) (Str ''::/0'') = Inr (Some True)
   \<and> ip_in_range ipaddress_sample (Str ''10.0.0.1'') (Str ''10.0.0.0/8'') = Inr (Some True)"
proof -
  have a: "IPv4Network_of_str ipaddress_sample ''::1'' = None"
    and b: "IPv6Network_of_str ipaddress_sample ''::1'' = Some (1, 128)"
    by (simp_all add: ipaddress_sample_def)
  have c: "(128::nat) \<noteq> 32" by simp
  have "ip_in_range ipaddress_sample (IPv6Address 1) (Str ''::/0'') = Inr (Some True)"
    by (simp add: ip_in_range_def ip_version_def ipaddress_sample_def netmask_def)
  moreover have "ip_in_range ipaddress_sample (Str ''10.0.0.1'') (Str ''10.0.0.0/8'') = Inr (Some True)"
    by (simp add: ip_in_range_def ip_version_def ipaddress_sample_def netmask_def)
  ultimately show ?thesis
    using ip_in_range_ipv6_string_none [OF a b c, of "Str ''::/0''"] by simp
qed

end
